theory Spec2Isabelle
  imports Main "HOL-Library.AList"
begin

section \<open>The chat server of \<open>chat.js\<close>: data model\<close>

text \<open>
  The server part of the source keeps three global containers and one closure variable
  per connection:
  \<^item> \<open>users\<close>, a JavaScript \<open>Map\<close> from \<open>socket.id\<close> to \<open>{username, avatar, status}\<close>.
    A \<open>Map\<close> iterates in insertion order and \<open>set\<close> on a present key keeps its place, so
    it is an association list with \<open>AList.update\<close> and \<open>AList.delete\<close>;
  \<^item> \<open>usernames\<close>, a \<open>Set\<close> that is only asked \<open>has\<close>, \<open>add\<close> and \<open>delete\<close>;
  \<^item> \<open>groups\<close>, a \<open>Map\<close> from group name to a \<open>Set\<close> of the values \<open>currentUser\<close> had
    (a string, or \<open>null\<close> for a connection that never logged in); both are read in
    insertion order by \<open>getGroupList\<close>, so both are lists;
  \<^item> \<open>currentUser\<close>, declared \<open>let currentUser = null\<close> in the closure of every connection.

  The transport (socket.io) is not part of the repository. The handlers use five of its
  operations, \<open>io.emit\<close>, \<open>io.to(room).emit\<close>, \<open>socket.to(room).emit\<close>, \<open>socket.emit\<close> and
  \<open>socket.join(room)\<close>; the state they act on is the set \<open>sockets\<close> of connected socket
  ids and the relation \<open>rooms\<close> between room names and socket ids. Room names, user names,
  group names and socket ids are all strings and share one name space, as in socket.io.
\<close>

type_synonym sid = string

record identity =
  username :: string
  avatar :: string
  status :: string

type_synonym group_list = "(string \<times> string option list) list"

record server =
  users :: "(sid \<times> identity) list"
  usernames :: "string set"
  groups :: group_list
  currentUser :: "sid \<Rightarrow> string option"
  sockets :: "sid set"
  rooms :: "(string \<times> sid) set"

definition init :: server where
  "init = \<lparr> users = [], usernames = {}, groups = [],
            currentUser = (\<lambda>_. None), sockets = {}, rooms = {} \<rparr>"

text \<open>
  The payloads the server sends, one constructor per event name, fields in the order the
  source writes them:
  \<open>receive_private {from, to, content, type, avatar, timestamp}\<close>,
  \<open>receive_group {group, from, content, type, avatar, timestamp}\<close>,
  \<open>display_typing {from, isGroup, group?}\<close>, \<open>hide_typing {from}\<close>,
  and the acknowledgement \<open>{available}\<close> of \<open>check_username\<close>.
\<close>

datatype payload =
    UpdateUsers "identity list"
  | UpdateGroups group_list
  | ReceivePrivate string string string string string string
  | ReceiveGroup string string string string string string
  | DisplayTyping string bool "string option"
  | HideTyping string
  | Available bool

text \<open>What a handler asks the transport to send, in the order of the calls.\<close>

datatype emit =
    IoEmit payload
  | IoTo string payload
  | SocketTo sid string payload
  | SocketEmit sid payload
  | Callback sid payload

text \<open>
  Reading a property of \<open>undefined\<close> throws a \<open>TypeError\<close>; no handler catches it, so it
  ends the handler (and, uncaught, the process).
\<close>

datatype error = TypeError

type_synonym outcome = "error + server \<times> emit list"

subsection \<open>JavaScript helpers\<close>

definition has :: "'k \<Rightarrow> ('k \<times> 'v) list \<Rightarrow> bool" where
  "has k m = (k \<in> fst ` set m)"

text \<open>\<open>Set.prototype.add\<close> and \<open>delete\<close> on an insertion-ordered set.\<close>

definition set_add :: "'a \<Rightarrow> 'a list \<Rightarrow> 'a list" where
  "set_add x xs = (if x \<in> set xs then xs else xs @ [x])"

definition set_delete :: "'a \<Rightarrow> 'a list \<Rightarrow> 'a list" where
  "set_delete x xs = filter (\<lambda>y. y \<noteq> x) xs"

text \<open>A string is truthy when it is not empty.\<close>

definition truthy :: "string \<Rightarrow> bool" where
  "truthy s = (s \<noteq> [])"

definition getUserList :: "server \<Rightarrow> identity list" where
  "getUserList st = map snd (users st)"

definition getGroupList :: "server \<Rightarrow> group_list" where
  "getGroupList st = groups st"

text \<open>
  \<open>[...users.entries()].find(([_, data]) => data.username === to)?.[0]\<close>: the socket id of
  the first record with that username, if any.
\<close>

definition recipientSocketId :: "server \<Rightarrow> string \<Rightarrow> sid option" where
  "recipientSocketId st to = map_option fst (find (\<lambda>(_, data). username data = to) (users st))"

section \<open>The handlers\<close>

text \<open>\<open>socket.on('check_username', (username, callback) => ...)\<close>\<close>

definition on_check_username :: "sid \<Rightarrow> string \<Rightarrow> server \<Rightarrow> server \<times> emit list" where
  "on_check_username s u st =
     (if u \<in> usernames st then (st, [Callback s (Available False)])
      else (st, [Callback s (Available True)]))"

text \<open>
  \<open>socket.on('login', ({ username, avatar, status }) => ...)\<close>. The test
  \<open>usernames.has(username)\<close> guards an empty block, so both branches continue alike.
  \<open>status || 'Online'\<close> takes \<open>'Online'\<close> for a missing or empty status.
\<close>

definition on_login :: "sid \<Rightarrow> string \<Rightarrow> string \<Rightarrow> string option \<Rightarrow> server \<Rightarrow> server \<times> emit list" where
  "on_login s u av stat st =
     (let st1 = (if u \<in> usernames st then st else st);
          st2 = st1 \<lparr> currentUser := (currentUser st1)(s := Some u) \<rparr>;
          st3 = st2 \<lparr> usernames := insert u (usernames st2) \<rparr>;
          st4 = st3 \<lparr> users := AList.update s
                   \<lparr> username = u, avatar = av,
                     status = (case stat of None \<Rightarrow> ''Online''
                               | Some x \<Rightarrow> if truthy x then x else ''Online'') \<rparr> (users st3) \<rparr>;
          st5 = st4 \<lparr> rooms := insert (u, s) (rooms st4) \<rparr>
      in (st5, [IoEmit (UpdateUsers (getUserList st5)),
                SocketEmit s (UpdateGroups (getGroupList st5))]))"

text \<open>\<open>socket.on('set_status', (status) => ...)\<close>\<close>

definition on_set_status :: "sid \<Rightarrow> string \<Rightarrow> server \<Rightarrow> server \<times> emit list" where
  "on_set_status s stat st =
     (if has s (users st) then
        (let st1 = st \<lparr> users := AList.map_entry s (\<lambda>d. d \<lparr> status := stat \<rparr>) (users st) \<rparr>
         in (st1, [IoEmit (UpdateUsers (getUserList st1))]))
      else (st, []))"

text \<open>
  \<open>socket.on('private_message', ({ to, content, type }) => ...)\<close>. \<open>now\<close> is the string
  \<open>new Date().toLocaleTimeString(...)\<close> returns when the handler runs. Building
  \<open>msgData\<close> reads \<open>sender.username\<close>, which throws when \<open>users.get(socket.id)\<close> is
  \<open>undefined\<close>.
\<close>

definition on_private_message ::
  "string \<Rightarrow> sid \<Rightarrow> string \<Rightarrow> string \<Rightarrow> string \<Rightarrow> server \<Rightarrow> outcome" where
  "on_private_message now s to content ty st =
     (let sender = map_of (users st) s;
          rcpt = recipientSocketId st to
      in case sender of
           None \<Rightarrow> Inl TypeError
         | Some sd \<Rightarrow>
            (let msgData = ReceivePrivate (username sd) to content ty (avatar sd) now
             in Inr (st, (case rcpt of
                            None \<Rightarrow> []
                          | Some r \<Rightarrow> if truthy r then [IoTo r msgData] else [])
                         @ [SocketEmit s msgData])))"

text \<open>
  \<open>socket.on('group_message', ({ groupName, content, type }) => ...)\<close>. The condition is
  \<open>groups.has(groupName) && groups.get(groupName).has(sender.username)\<close>: the right
  operand, and with it the read of \<open>sender.username\<close>, is evaluated only for a group
  that exists.
\<close>

definition on_group_message ::
  "string \<Rightarrow> sid \<Rightarrow> string \<Rightarrow> string \<Rightarrow> string \<Rightarrow> server \<Rightarrow> outcome" where
  "on_group_message now s groupName content ty st =
     (let sender = map_of (users st) s
      in case map_of (groups st) groupName of
           None \<Rightarrow> Inr (st, [])
         | Some members \<Rightarrow>
            (case sender of
               None \<Rightarrow> Inl TypeError
             | Some sd \<Rightarrow>
                 if Some (username sd) \<in> set members
                 then Inr (st, [IoTo groupName
                          (ReceiveGroup groupName (username sd) content ty (avatar sd) now)])
                 else Inr (st, [])))"

text \<open>
  \<open>socket.on('typing', ({ target, type }) => ...)\<close> and \<open>'stop_typing'\<close>. In the private
  branch \<open>sender.username\<close> is read only when a recipient was found; in the other branch
  it is always read.
\<close>

definition on_typing :: "sid \<Rightarrow> string \<Rightarrow> string \<Rightarrow> server \<Rightarrow> outcome" where
  "on_typing s target ty st =
     (let sender = map_of (users st) s
      in if ty = ''private'' then
           (case recipientSocketId st target of
              None \<Rightarrow> Inr (st, [])
            | Some r \<Rightarrow>
               if truthy r then
                 (case sender of
                    None \<Rightarrow> Inl TypeError
                  | Some sd \<Rightarrow> Inr (st, [IoTo r (DisplayTyping (username sd) False None)]))
               else Inr (st, []))
         else
           (case sender of
              None \<Rightarrow> Inl TypeError
            | Some sd \<Rightarrow>
                Inr (st, [SocketTo s target (DisplayTyping (username sd) True (Some target))])))"

definition on_stop_typing :: "sid \<Rightarrow> string \<Rightarrow> string \<Rightarrow> server \<Rightarrow> outcome" where
  "on_stop_typing s target ty st =
     (let sender = map_of (users st) s
      in if ty = ''private'' then
           (case recipientSocketId st target of
              None \<Rightarrow> Inr (st, [])
            | Some r \<Rightarrow>
               if truthy r then
                 (case sender of
                    None \<Rightarrow> Inl TypeError
                  | Some sd \<Rightarrow> Inr (st, [IoTo r (HideTyping (username sd))]))
               else Inr (st, []))
         else
           (case sender of
              None \<Rightarrow> Inl TypeError
            | Some sd \<Rightarrow> Inr (st, [SocketTo s target (HideTyping (username sd))])))"

text \<open>
  \<open>socket.on('create_group', (groupName) => ...)\<close>: \<open>new Set([currentUser])\<close> holds
  whatever \<open>currentUser\<close> is, \<open>null\<close> included.
\<close>

definition on_create_group :: "sid \<Rightarrow> string \<Rightarrow> server \<Rightarrow> server \<times> emit list" where
  "on_create_group s groupName st =
     (if \<not> has groupName (groups st) then
        (let st1 = st \<lparr> groups := groups st @ [(groupName, [currentUser st s])] \<rparr>;
             st2 = st1 \<lparr> rooms := insert (groupName, s) (rooms st1) \<rparr>
         in (st2, [IoEmit (UpdateGroups (getGroupList st2))]))
      else (st, []))"

text \<open>\<open>socket.on('join_group', (groupName) => ...)\<close>\<close>

definition on_join_group :: "sid \<Rightarrow> string \<Rightarrow> server \<Rightarrow> server \<times> emit list" where
  "on_join_group s groupName st =
     (if has groupName (groups st) then
        (let st1 = st \<lparr> groups := AList.map_entry groupName (set_add (currentUser st s)) (groups st) \<rparr>;
             st2 = st1 \<lparr> rooms := insert (groupName, s) (rooms st1) \<rparr>
         in (st2, [IoEmit (UpdateGroups (getGroupList st2))]))
      else (st, []))"

text \<open>
  \<open>socket.on('disconnect', () => ...)\<close>. \<open>if (currentUser)\<close> is a truthiness test: it
  fails for \<open>null\<close> and for the empty string.
\<close>

definition on_disconnect :: "sid \<Rightarrow> server \<Rightarrow> server \<times> emit list" where
  "on_disconnect s st =
     (case currentUser st s of
        None \<Rightarrow> (st, [])
      | Some cu \<Rightarrow>
         if truthy cu then
           (let st1 = st \<lparr> usernames := usernames st - {cu} \<rparr>;
                st2 = st1 \<lparr> users := AList.delete s (users st1) \<rparr>;
                st3 = st2 \<lparr> groups := map (\<lambda>(name, members). (name, set_delete (Some cu) members))
                                         (groups st2) \<rparr>
            in (st3, [IoEmit (UpdateUsers (getUserList st3))]))
         else (st, []))"

section \<open>The transport and the event loop\<close>

text \<open>
  \<open>io.on('connection', (socket) => ...)\<close> runs once per new socket: the transport has
  added the socket to the namespace and to the room named by its own id, and the closure
  starts with \<open>currentUser = null\<close>. When a socket closes, the transport takes it out of
  every room and out of the namespace before the \<open>disconnect\<close> handler runs.
\<close>

definition on_connection :: "sid \<Rightarrow> server \<Rightarrow> server" where
  "on_connection s st =
     st \<lparr> currentUser := (currentUser st)(s := None),
          sockets := insert s (sockets st),
          rooms := insert (s, s) (rooms st) \<rparr>"

definition socket_close :: "sid \<Rightarrow> server \<Rightarrow> server" where
  "socket_close s st =
     st \<lparr> sockets := sockets st - {s},
          rooms := rooms st - (UNIV \<times> {s}) \<rparr>"

text \<open>
  How many copies of an emission the connection \<open>c\<close> gets, in the transport state the
  handler leaves: \<open>io.emit\<close> goes to every connected socket, \<open>io.to(r)\<close> to the sockets in
  room \<open>r\<close>, \<open>socket.to(r)\<close> to the sockets in room \<open>r\<close> other than the sender, and
  \<open>socket.emit\<close> and an acknowledgement to the socket itself.
\<close>

fun delivered :: "server \<Rightarrow> emit \<Rightarrow> sid \<Rightarrow> nat" where
  "delivered st (IoEmit p) c = (if c \<in> sockets st then 1 else 0)"
| "delivered st (IoTo r p) c = (if (r, c) \<in> rooms st then 1 else 0)"
| "delivered st (SocketTo s r p) c = (if (r, c) \<in> rooms st \<and> c \<noteq> s then 1 else 0)"
| "delivered st (SocketEmit s p) c = (if c = s then 1 else 0)"
| "delivered st (Callback s p) c = (if c = s then 1 else 0)"

definition received :: "server \<Rightarrow> emit list \<Rightarrow> sid \<Rightarrow> nat" where
  "received st es c = sum_list (map (\<lambda>e. delivered st e c) es)"

text \<open>
  The inbound events. Each carries the socket it arrives on; the two message events also
  carry the clock reading the handler takes.
\<close>

datatype event =
    Connection sid
  | CheckUsername sid string
  | Login sid string string "string option"
  | SetStatus sid string
  | PrivateMessage sid string string string string
  | GroupMessage sid string string string string
  | Typing sid string string
  | StopTyping sid string string
  | CreateGroup sid string
  | JoinGroup sid string
  | Disconnect sid

fun handle :: "event \<Rightarrow> server \<Rightarrow> outcome" where
  "handle (Connection s) st = Inr (on_connection s st, [])"
| "handle (CheckUsername s u) st = Inr (on_check_username s u st)"
| "handle (Login s u av stat) st = Inr (on_login s u av stat st)"
| "handle (SetStatus s stat) st = Inr (on_set_status s stat st)"
| "handle (PrivateMessage s to content ty now) st = on_private_message now s to content ty st"
| "handle (GroupMessage s g content ty now) st = on_group_message now s g content ty st"
| "handle (Typing s target ty) st = on_typing s target ty st"
| "handle (StopTyping s target ty) st = on_stop_typing s target ty st"
| "handle (CreateGroup s g) st = Inr (on_create_group s g st)"
| "handle (JoinGroup s g) st = Inr (on_join_group s g st)"
| "handle (Disconnect s) st = Inr (on_disconnect s (socket_close s st))"

text \<open>
  What the transport guarantees about the events it hands over: a new connection has a
  fresh, non-empty socket id, and every other event arrives on a connected socket.
\<close>

fun enabled :: "server \<Rightarrow> event \<Rightarrow> bool" where
  "enabled st (Connection s) = (s \<notin> sockets st \<and> s \<noteq> [])"
| "enabled st (CheckUsername s u) = (s \<in> sockets st)"
| "enabled st (Login s u av stat) = (s \<in> sockets st)"
| "enabled st (SetStatus s stat) = (s \<in> sockets st)"
| "enabled st (PrivateMessage s to content ty now) = (s \<in> sockets st)"
| "enabled st (GroupMessage s g content ty now) = (s \<in> sockets st)"
| "enabled st (Typing s target ty) = (s \<in> sockets st)"
| "enabled st (StopTyping s target ty) = (s \<in> sockets st)"
| "enabled st (CreateGroup s g) = (s \<in> sockets st)"
| "enabled st (JoinGroup s g) = (s \<in> sockets st)"
| "enabled st (Disconnect s) = (s \<in> sockets st)"

text \<open>
  Running a sequence of events from a state. An event the transport cannot deliver is
  skipped; a handler that throws stops the run with its error.
\<close>

fun run :: "event list \<Rightarrow> server \<Rightarrow> error + server" where
  "run [] st = Inr st"
| "run (ev # evs) st =
     (if enabled st ev then
        (case handle ev st of Inl e \<Rightarrow> Inl e | Inr (st', es) \<Rightarrow> run evs st')
      else run evs st)"

text \<open>
  The states the server can be in: those reached from the empty one by events the
  transport can deliver and whose handlers return, each event also meeting a discipline
  \<open>P\<close> on the clients (\<open>anything\<close> for none).
\<close>

inductive reach :: "(server \<Rightarrow> event \<Rightarrow> bool) \<Rightarrow> server \<Rightarrow> bool" for P where
  reach_init: "reach P init"
| reach_step: "reach P st \<Longrightarrow> enabled st ev \<Longrightarrow> P st ev \<Longrightarrow> handle ev st = Inr (st', es)
                 \<Longrightarrow> reach P st'"

definition anything :: "server \<Rightarrow> event \<Rightarrow> bool" where
  "anything st ev = True"

abbreviation reachable :: "server \<Rightarrow> bool" where
  "reachable \<equiv> reach anything"

section \<open>Vocabulary of the properties\<close>

text \<open>
  The \<open>disconnect\<close> handler cleans up exactly when \<open>currentUser\<close> is truthy.
\<close>

definition leaving :: "sid \<Rightarrow> server \<Rightarrow> bool" where
  "leaving s st = (case currentUser st s of None \<Rightarrow> False | Some cu \<Rightarrow> truthy cu)"

text \<open>
  A connection mapped to a member username of group \<open>g\<close>: it has a record in \<open>users\<close>
  and the username of that record is in the member set of \<open>g\<close>.
\<close>

definition member_connection :: "server \<Rightarrow> string \<Rightarrow> sid \<Rightarrow> bool" where
  "member_connection st g c =
     (case map_of (groups st) g of
        None \<Rightarrow> False
      | Some ms \<Rightarrow> (case map_of (users st) c of
                     None \<Rightarrow> False
                   | Some d \<Rightarrow> Some (username d) \<in> set ms))"

text \<open>
  Disciplines on the clients. \<open>login\<close> does not enforce any of them; the client pages
  of the repository follow the first one by probing \<open>check_username\<close> before they log in.
  \<^item> \<open>honours_probe\<close>: a login uses a username the directory does not hold;
  \<^item> \<open>single_login\<close>: moreover the connection has no record yet;
  \<^item> \<open>well_behaved\<close>: moreover usernames are not empty, a connection logs in before it
    creates or joins a group, and user names, group names and socket ids are kept apart
    (they share the room name space of the transport).
\<close>

fun honours_probe :: "server \<Rightarrow> event \<Rightarrow> bool" where
  "honours_probe st (Login s u av stat) = (u \<notin> usernames st)"
| "honours_probe st ev = True"

fun single_login :: "server \<Rightarrow> event \<Rightarrow> bool" where
  "single_login st (Login s u av stat) = (u \<notin> usernames st \<and> \<not> has s (users st))"
| "single_login st ev = True"

fun well_behaved :: "server \<Rightarrow> event \<Rightarrow> bool" where
  "well_behaved st (Connection s) = (\<not> has s (groups st))"
| "well_behaved st (Login s u av stat) =
     (u \<notin> usernames st \<and> \<not> has s (users st) \<and> truthy u \<and> \<not> has u (groups st))"
| "well_behaved st (CreateGroup s g) = (currentUser st s \<noteq> None \<and> g \<notin> fst ` rooms st)"
| "well_behaved st (JoinGroup s g) = (currentUser st s \<noteq> None)"
| "well_behaved st ev = True"

subsection \<open>Example states\<close>

text \<open>
  \<open>lobby\<close>: alice is logged in on \<open>c1\<close>, \<open>c2\<close> is connected and has not logged in.
  \<open>duo\<close>: bob then logs in on \<open>c2\<close>. \<open>two_alices\<close>: \<open>c2\<close> logs in as alice instead.
  \<open>alice_gone\<close>: in \<open>two_alices\<close> the first connection closes.
  \<open>team_room\<close>: alice creates the group team before bob arrives; \<open>team_chat\<close>: bob then
  joins it and carol logs in on \<open>c3\<close>. \<open>namesake\<close>: alice creates the group team and
  \<open>c2\<close> logs in under the username team. \<open>lurker\<close>: \<open>c2\<close> joins team without logging in.
  \<open>blank_online\<close>: \<open>c1\<close> has logged in with the empty string as username. \<open>ghost\<close>:
  that connection closes, \<open>c2\<close> logs in with the empty string too, and bob logs in on
  \<open>c3\<close>.
\<close>

definition alice_online :: server where
  "alice_online = fst (on_login ''c1'' ''alice'' ''a.png'' None (on_connection ''c1'' init))"

definition lobby :: server where
  "lobby = on_connection ''c2'' alice_online"

definition duo :: server where
  "duo = fst (on_login ''c2'' ''bob'' ''b.png'' None lobby)"

definition two_alices :: server where
  "two_alices = fst (on_login ''c2'' ''alice'' ''b.png'' None lobby)"

definition alice_gone :: server where
  "alice_gone = fst (on_disconnect ''c1'' (socket_close ''c1'' two_alices))"

definition blank_online :: server where
  "blank_online = fst (on_login ''c1'' [] ''a.png'' None (on_connection ''c1'' init))"

definition team_created :: server where
  "team_created = on_connection ''c2'' (fst (on_create_group ''c1'' ''team'' alice_online))"

definition team_room :: server where
  "team_room = fst (on_login ''c2'' ''bob'' ''b.png'' None team_created)"

definition namesake :: server where
  "namesake = fst (on_login ''c2'' ''team'' ''t.png'' None team_created)"

definition lurker :: server where
  "lurker = fst (on_join_group ''c2'' ''team'' team_created)"

definition ghost :: server where
  "ghost = fst (on_login ''c3'' ''bob'' ''b.png'' None (on_connection ''c3''
             (fst (on_login ''c2'' [] ''g.png'' None (on_connection ''c2''
                (fst (on_disconnect ''c1'' (socket_close ''c1'' blank_online))))))))"

definition team_chat :: server where
  "team_chat = fst (on_login ''c3'' ''carol'' ''c.png'' None
                 (on_connection ''c3'' (fst (on_join_group ''c2'' ''team'' team_room))))"

section \<open>Properties\<close>

subsection \<open>What each handler does to each part of the state\<close>

lemmas example_defs = alice_online_def lobby_def duo_def two_alices_def alice_gone_def
  team_created_def team_room_def team_chat_def blank_online_def namesake_def lurker_def
  ghost_def

lemmas handler_defs = init_def on_connection_def on_login_def on_create_group_def
  on_join_group_def has_def Let_def truthy_def getUserList_def getGroupList_def
  on_disconnect_def socket_close_def set_delete_def set_add_def on_check_username_def
  on_set_status_def

lemma has_append_new [simp]: "has k (m @ [(k, v)])"
  by (simp add: has_def)

lemma map_entry_append_new:
  "\<not> has k m \<Longrightarrow> AList.map_entry k f (m @ [(k, v)]) = m @ [(k, f v)]"
  by (induction m) (auto simp: has_def)

lemma on_connection_fields [simp]:
  "users (on_connection s st) = users st"
  "usernames (on_connection s st) = usernames st"
  "groups (on_connection s st) = groups st"
  "currentUser (on_connection s st) = (currentUser st)(s := None)"
  "sockets (on_connection s st) = insert s (sockets st)"
  "rooms (on_connection s st) = insert (s, s) (rooms st)"
  by (simp_all add: on_connection_def)

lemma socket_close_fields [simp]:
  "users (socket_close s st) = users st"
  "usernames (socket_close s st) = usernames st"
  "groups (socket_close s st) = groups st"
  "currentUser (socket_close s st) = currentUser st"
  "sockets (socket_close s st) = sockets st - {s}"
  "rooms (socket_close s st) = rooms st - (UNIV \<times> {s})"
  by (simp_all add: socket_close_def)

lemma on_login_fields [simp]:
  "users (fst (on_login s u av stat st)) =
     AList.update s \<lparr> username = u, avatar = av,
        status = (case stat of None \<Rightarrow> ''Online'' | Some x \<Rightarrow> if truthy x then x else ''Online'') \<rparr>
       (users st)"
  "usernames (fst (on_login s u av stat st)) = insert u (usernames st)"
  "groups (fst (on_login s u av stat st)) = groups st"
  "currentUser (fst (on_login s u av stat st)) = (currentUser st)(s := Some u)"
  "sockets (fst (on_login s u av stat st)) = sockets st"
  "rooms (fst (on_login s u av stat st)) = insert (u, s) (rooms st)"
  by (simp_all add: on_login_def Let_def)

lemma map_entry_absent: "\<not> has k m \<Longrightarrow> AList.map_entry k f m = m"
  by (induction m) (auto simp: has_def)

lemma on_set_status_fields [simp]:
  "users (fst (on_set_status s x st)) = AList.map_entry s (\<lambda>d. d \<lparr> status := x \<rparr>) (users st)"
  "usernames (fst (on_set_status s x st)) = usernames st"
  "groups (fst (on_set_status s x st)) = groups st"
  "currentUser (fst (on_set_status s x st)) = currentUser st"
  "sockets (fst (on_set_status s x st)) = sockets st"
  "rooms (fst (on_set_status s x st)) = rooms st"
  by (simp_all add: on_set_status_def Let_def map_entry_absent)

lemma on_create_group_fields [simp]:
  "users (fst (on_create_group s g st)) = users st"
  "usernames (fst (on_create_group s g st)) = usernames st"
  "groups (fst (on_create_group s g st)) =
     (if has g (groups st) then groups st else groups st @ [(g, [currentUser st s])])"
  "currentUser (fst (on_create_group s g st)) = currentUser st"
  "sockets (fst (on_create_group s g st)) = sockets st"
  "rooms (fst (on_create_group s g st)) =
     (if has g (groups st) then rooms st else insert (g, s) (rooms st))"
  by (simp_all add: on_create_group_def Let_def)

lemma on_join_group_fields [simp]:
  "users (fst (on_join_group s g st)) = users st"
  "usernames (fst (on_join_group s g st)) = usernames st"
  "groups (fst (on_join_group s g st)) =
     AList.map_entry g (set_add (currentUser st s)) (groups st)"
  "currentUser (fst (on_join_group s g st)) = currentUser st"
  "sockets (fst (on_join_group s g st)) = sockets st"
  "rooms (fst (on_join_group s g st)) =
     (if has g (groups st) then insert (g, s) (rooms st) else rooms st)"
  by (simp_all add: on_join_group_def Let_def map_entry_absent)

lemma on_disconnect_fields [simp]:
  "users (fst (on_disconnect s st)) = (if leaving s st then AList.delete s (users st) else users st)"
  "usernames (fst (on_disconnect s st)) =
     (if leaving s st then usernames st - {the (currentUser st s)} else usernames st)"
  "groups (fst (on_disconnect s st)) =
     (if leaving s st
      then map (\<lambda>(name, members). (name, set_delete (currentUser st s) members)) (groups st)
      else groups st)"
  "currentUser (fst (on_disconnect s st)) = currentUser st"
  "sockets (fst (on_disconnect s st)) = sockets st"
  "rooms (fst (on_disconnect s st)) = rooms st"
  by (auto simp: on_disconnect_def Let_def leaving_def split: option.splits)

lemma leaving_socket_close [simp]: "leaving s (socket_close s' st) = leaving s st"
  by (simp add: leaving_def)

subsection \<open>Induction over the reachable states\<close>

text \<open>
  Only six handlers change the state, so an invariant needs one case for each of them
  and one for the initial state.
\<close>

lemma reach_handlers_induct [consumes 1, case_names init connection login set_status
    create_group join_group disconnect]:
  assumes "reach P st"
    and "Q init"
    and "\<And>st s. reach P st \<Longrightarrow> Q st \<Longrightarrow> s \<notin> sockets st \<Longrightarrow> s \<noteq> []
           \<Longrightarrow> P st (Connection s) \<Longrightarrow> Q (on_connection s st)"
    and "\<And>st s u av stat. reach P st \<Longrightarrow> Q st \<Longrightarrow> s \<in> sockets st
           \<Longrightarrow> P st (Login s u av stat) \<Longrightarrow> Q (fst (on_login s u av stat st))"
    and "\<And>st s x. reach P st \<Longrightarrow> Q st \<Longrightarrow> s \<in> sockets st
           \<Longrightarrow> P st (SetStatus s x) \<Longrightarrow> Q (fst (on_set_status s x st))"
    and "\<And>st s g. reach P st \<Longrightarrow> Q st \<Longrightarrow> s \<in> sockets st
           \<Longrightarrow> P st (CreateGroup s g) \<Longrightarrow> Q (fst (on_create_group s g st))"
    and "\<And>st s g. reach P st \<Longrightarrow> Q st \<Longrightarrow> s \<in> sockets st
           \<Longrightarrow> P st (JoinGroup s g) \<Longrightarrow> Q (fst (on_join_group s g st))"
    and "\<And>st s. reach P st \<Longrightarrow> Q st \<Longrightarrow> s \<in> sockets st
           \<Longrightarrow> P st (Disconnect s) \<Longrightarrow> Q (fst (on_disconnect s (socket_close s st)))"
  shows "Q st"
  using assms(1)
proof (induction rule: reach.induct)
  case reach_init
  show ?case by (rule assms(2))
next
  case (reach_step st ev st' es)
  show ?case
  proof (cases ev)
    case (Connection s)
    with reach_step assms(3) [of st s] show ?thesis by auto
  next
    case (CheckUsername s u)
    with reach_step show ?thesis by (auto simp: on_check_username_def split: if_splits)
  next
    case (Login s u av stat)
    with reach_step assms(4) [of st s u av stat] show ?thesis by auto
  next
    case (SetStatus s x)
    with reach_step assms(5) [of st s x] show ?thesis by auto
  next
    case (PrivateMessage s t content ty now)
    with reach_step show ?thesis
      by (auto simp: on_private_message_def Let_def split: option.splits)
  next
    case (GroupMessage s g content ty now)
    with reach_step show ?thesis
      by (auto simp: on_group_message_def Let_def split: option.splits if_splits)
  next
    case (Typing s t ty)
    with reach_step show ?thesis
      by (auto simp: on_typing_def Let_def split: option.splits if_splits)
  next
    case (StopTyping s t ty)
    with reach_step show ?thesis
      by (auto simp: on_stop_typing_def Let_def split: option.splits if_splits)
  next
    case (CreateGroup s g)
    with reach_step assms(6) [of st s g] show ?thesis by auto
  next
    case (JoinGroup s g)
    with reach_step assms(7) [of st s g] show ?thesis by auto
  next
    case (Disconnect s)
    with reach_step assms(8) [of st s] show ?thesis by auto
  qed
qed

subsection \<open>Invariants of every reachable state\<close>



lemma reach_rooms_live: "reach P st \<Longrightarrow> (r, c) \<in> rooms st \<Longrightarrow> c \<in> sockets st"
  by (induction rule: reach_handlers_induct) (auto simp: init_def split: if_splits)

lemma reach_users_distinct: "reach P st \<Longrightarrow> distinct (map fst (users st))"
  by (induction rule: reach_handlers_induct)
     (auto simp: init_def AList.distinct_update AList.distinct_map_entry AList.distinct_delete)


subsection \<open>Deliveries and the lookup of a recipient\<close>

lemma received_single [simp]: "received st [e] c = delivered st e c"
  by (simp add: received_def)

lemma received_Nil [simp]: "received st [] c = 0"
  by (simp add: received_def)


lemma find_username_Some:
  "find (\<lambda>(_, data). username data = t) m = Some (r, d) \<Longrightarrow> (r, d) \<in> set m \<and> username d = t"
  by (induction m) (auto split: if_splits)





lemma recipient_Some:
  assumes "recipientSocketId st t = Some r" and "distinct (map fst (users st))"
  shows "\<exists>d. map_of (users st) r = Some d \<and> username d = t"
proof -
  from assms(1) obtain d where "find (\<lambda>(_, data). username data = t) (users st) = Some (r, d)"
    by (auto simp: recipientSocketId_def)
  then have "(r, d) \<in> set (users st)" and "username d = t"
    using find_username_Some by fastforce+
  with assms(2) show ?thesis by auto
qed

subsection \<open>Disciplines\<close>

lemma reach_mono: "reach P st \<Longrightarrow> (\<And>st ev. P st ev \<Longrightarrow> Q st ev) \<Longrightarrow> reach Q st"
  by (induction rule: reach.induct) (auto intro: reach.intros)

lemma single_login_honours: "single_login st ev \<Longrightarrow> honours_probe st ev"
  by (cases ev) auto

subsection \<open>Lookups in the registry after each handler\<close>

lemma map_of_map_entry_status [simp]:
  "map_of (AList.map_entry s (\<lambda>d. d \<lparr> status := x \<rparr>) m) c =
     (if c = s then map_option (\<lambda>d. d \<lparr> status := x \<rparr>) (map_of m s) else map_of m c)"
  by (simp add: AList.map_of_map_entry split: option.splits)

declare AList.update_conv' [simp] AList.delete_conv' [simp]

lemma has_map_of: "has k m \<longleftrightarrow> map_of m k \<noteq> None"
  by (simp add: has_def map_of_eq_None_iff)

subsection \<open>Registry, directory and the closure variable\<close>

text \<open>
  On a connected socket the value of \<open>currentUser\<close> is the username of its record; a
  record with a non-empty username belongs to a connected socket.
\<close>

lemma reach_currentUser_registered:
  "reach P st \<Longrightarrow> c \<in> sockets st \<Longrightarrow> currentUser st c = Some u
     \<Longrightarrow> \<exists>d. map_of (users st) c = Some d \<and> username d = u"
proof (induction arbitrary: c u rule: reach_handlers_induct)
  case init
  then show ?case by (simp add: init_def)
next
  case (set_status st s x)
  from set_status.IH [of c u] set_status.prems
  obtain d where "map_of (users st) c = Some d" "username d = u" by auto
  then show ?case by (cases "c = s") auto
qed (auto split: if_splits)

lemma leaving_registered:
  assumes "reach P st" and "s \<in> sockets st" and "leaving s st"
  obtains ds where "map_of (users st) s = Some ds" and "currentUser st s = Some (username ds)"
proof -
  from assms(3) obtain u where "currentUser st s = Some u"
    by (auto simp: leaving_def split: option.splits)
  with reach_currentUser_registered [OF assms(1,2)] that show ?thesis by blast
qed

lemma set_status_record:
  "map_of (users (fst (on_set_status s x st))) c = Some d'
     \<Longrightarrow> \<exists>d. map_of (users st) c = Some d \<and> username d = username d'"
  by (auto split: if_splits)

lemma disconnect_record:
  "map_of (users (fst (on_disconnect s st))) c = Some d
     \<Longrightarrow> map_of (users st) c = Some d \<and> (leaving s st \<longrightarrow> c \<noteq> s)"
  by (auto split: if_splits)

lemma login_record:
  "map_of (users (fst (on_login s u av stat st))) c = Some d
     \<Longrightarrow> (c = s \<and> username d = u) \<or> (c \<noteq> s \<and> map_of (users st) c = Some d)"
  by (auto split: if_splits)


lemma reach_names_unique:
  assumes "reach honours_probe st"
  shows "(\<forall>c d. map_of (users st) c = Some d \<longrightarrow> username d \<in> usernames st)
       \<and> (\<forall>c c' d d'. map_of (users st) c = Some d \<and> map_of (users st) c' = Some d'
             \<and> username d = username d' \<longrightarrow> c = c')"
  using assms
proof (induction rule: reach_handlers_induct)
  case init
  show ?case by (simp add: init_def)
next
  case (login st s u av stat)
  from login.IH have A: "\<And>c d. map_of (users st) c = Some d \<Longrightarrow> username d \<in> usernames st"
    by blast
  from login.IH have B: "\<And>c c' d d'. map_of (users st) c = Some d
      \<Longrightarrow> map_of (users st) c' = Some d' \<Longrightarrow> username d = username d' \<Longrightarrow> c = c'"
    by blast
  from login.hyps have fresh: "u \<notin> usernames st" by simp
  let ?st' = "fst (on_login s u av stat st)"
  have "username d \<in> usernames ?st'" if "map_of (users ?st') c = Some d" for c d
    using login_record [OF that] A [of c d] by auto
  moreover have "c = c'"
    if c: "map_of (users ?st') c = Some d" and c': "map_of (users ?st') c' = Some d'"
      and eq: "username d = username d'" for c c' d d'
  proof (cases "c = s"; cases "c' = s")
    assume "c \<noteq> s" "c' \<noteq> s"
    with login_record [OF c] login_record [OF c'] B [of c d c' d'] eq show ?thesis by simp
  next
    assume "c = s" "c' \<noteq> s"
    with login_record [OF c] login_record [OF c'] A [of c' d'] eq fresh show ?thesis by simp
  next
    assume "c \<noteq> s" "c' = s"
    with login_record [OF c] login_record [OF c'] A [of c d] eq fresh show ?thesis by simp
  qed simp
  ultimately show ?case by blast
next
  case (set_status st s x)
  from set_status.IH have A: "\<And>c d. map_of (users st) c = Some d \<Longrightarrow> username d \<in> usernames st"
    by blast
  from set_status.IH have B: "\<And>c c' d d'. map_of (users st) c = Some d
      \<Longrightarrow> map_of (users st) c' = Some d' \<Longrightarrow> username d = username d' \<Longrightarrow> c = c'"
    by blast
  let ?st' = "fst (on_set_status s x st)"
  have "username d \<in> usernames ?st'" if "map_of (users ?st') c = Some d" for c d
  proof -
    from set_status_record [OF that] obtain d0
      where "map_of (users st) c = Some d0" "username d0 = username d" by blast
    with A [of c d0] show ?thesis by simp
  qed
  moreover have "c = c'"
    if c: "map_of (users ?st') c = Some d" and c': "map_of (users ?st') c' = Some d'"
      and eq: "username d = username d'" for c c' d d'
  proof -
    from set_status_record [OF c] obtain d0
      where d0: "map_of (users st) c = Some d0" "username d0 = username d" by blast
    from set_status_record [OF c'] obtain d1
      where d1: "map_of (users st) c' = Some d1" "username d1 = username d'" by blast
    from B [OF d0(1) d1(1)] d0(2) d1(2) eq show ?thesis by simp
  qed
  ultimately show ?case by blast
next
  case (disconnect st s)
  from disconnect.IH have A: "\<And>c d. map_of (users st) c = Some d \<Longrightarrow> username d \<in> usernames st"
    by blast
  from disconnect.IH have B: "\<And>c c' d d'. map_of (users st) c = Some d
      \<Longrightarrow> map_of (users st) c' = Some d' \<Longrightarrow> username d = username d' \<Longrightarrow> c = c'"
    by blast
  let ?st' = "fst (on_disconnect s (socket_close s st))"
  have rec: "map_of (users st) c = Some d \<and> (leaving s st \<longrightarrow> c \<noteq> s)"
    if "map_of (users ?st') c = Some d" for c d
    using disconnect_record [OF that] by simp
  have "username d \<in> usernames ?st'" if "map_of (users ?st') c = Some d" for c d
  proof -
    from rec [OF that] have c: "map_of (users st) c = Some d" "leaving s st \<longrightarrow> c \<noteq> s"
      by blast+
    show ?thesis
    proof (cases "leaving s st")
      case False
      with A [OF c(1)] show ?thesis by simp
    next
      case True
      from leaving_registered [OF disconnect.hyps(1,2) True]
      obtain ds where ds: "map_of (users st) s = Some ds" "currentUser st s = Some (username ds)"
        by blast
      from c True have "c \<noteq> s" by simp
      with B [OF c(1) ds(1)] have "username d \<noteq> username ds" by blast
      with A [OF c(1)] True ds show ?thesis by simp
    qed
  qed
  moreover have "c = c'"
    if c: "map_of (users ?st') c = Some d" and c': "map_of (users ?st') c' = Some d'"
      and eq: "username d = username d'" for c c' d d'
    using rec [OF c] rec [OF c'] B [of c d c' d'] eq by simp
  ultimately show ?case by blast
qed simp_all

lemma distinct_names:
  "distinct (map fst m) \<Longrightarrow>
   (\<forall>c c' d d'. map_of m c = Some d \<and> map_of m c' = Some d' \<and> f d = f d' \<longrightarrow> c = c')
   \<Longrightarrow> distinct (map (f \<circ> snd) m)"
proof (induction m)
  case Nil
  show ?case by simp
next
  case (Cons p m)
  obtain k v where p: "p = (k, v)" by (cases p)
  have k: "k \<notin> fst ` set m" and dm: "distinct (map fst m)" using Cons.prems(1) p by auto
  have inj: "\<And>c c' d d'. map_of ((k, v) # m) c = Some d \<Longrightarrow> map_of ((k, v) # m) c' = Some d'
               \<Longrightarrow> f d = f d' \<Longrightarrow> c = c'"
    using Cons.prems(2) p by blast
  have "f v \<notin> (f \<circ> snd) ` set m"
  proof
    assume "f v \<in> (f \<circ> snd) ` set m"
    then obtain c d where cd: "(c, d) \<in> set m" "f d = f v" by auto
    then have "c \<noteq> k" using k by force
    moreover have "map_of ((k, v) # m) c = Some d" using cd dm \<open>c \<noteq> k\<close> by simp
    moreover have "map_of ((k, v) # m) k = Some v" by simp
    ultimately show False using inj cd(2) by blast
  qed
  moreover have "distinct (map (f \<circ> snd) m)"
  proof (rule Cons.IH [OF dm], intro allI impI, elim conjE)
    fix c c' d d'
    assume a: "map_of m c = Some d" "map_of m c' = Some d'" "f d = f d'"
    then have "c \<noteq> k" "c' \<noteq> k" using k by (auto dest!: map_of_SomeD intro: rev_image_eqI)
    then show "c = c'" using inj [of c d c' d'] a by simp
  qed
  ultimately show ?case using p by (simp add: o_def)
qed

lemma reach_directory_covered:
  assumes "reach single_login st"
  shows "u \<in> usernames st \<Longrightarrow> \<exists>c d. map_of (users st) c = Some d \<and> username d = u"
  using assms
proof (induction arbitrary: u rule: reach_handlers_induct)
  case init
  then show ?case by (simp add: init_def)
next
  case (login st s u' av stat)
  show ?case
  proof (cases "u = u'")
    case True
    then show ?thesis by auto
  next
    case False
    with login.IH [of u] login.prems obtain c d
      where cd: "map_of (users st) c = Some d" "username d = u"
      by auto
    moreover have "map_of (users st) s = None" using login.hyps by (simp add: has_map_of)
    ultimately have "c \<noteq> s" by auto
    with cd show ?thesis by (intro exI [of _ c] exI [of _ d]) auto
  qed
next
  case (set_status st s x)
  from set_status.IH [of u] set_status.prems obtain c d
    where cd: "map_of (users st) c = Some d" "username d = u" by auto
  show ?case
    by (rule exI [of _ c], cases "c = s") (use cd in auto)
next
  case (disconnect st s)
  show ?case
  proof (cases "leaving s st")
    case False
    with disconnect.IH [of u] disconnect.prems show ?thesis by simp
  next
    case True
    from leaving_registered [OF disconnect.hyps(1,2) True]
    obtain ds where ds: "map_of (users st) s = Some ds" "currentUser st s = Some (username ds)"
      by blast
    from True ds disconnect.prems have "u \<in> usernames st" "u \<noteq> username ds" by auto
    with disconnect.IH [of u] obtain c d where cd: "map_of (users st) c = Some d" "username d = u"
      by auto
    with ds \<open>u \<noteq> username ds\<close> have "c \<noteq> s" by auto
    with cd True show ?thesis by (intro exI [of _ c] exI [of _ d]) auto
  qed
qed auto

subsection \<open>Rooms and group members under well-behaved clients\<close>

lemma well_behaved_single: "well_behaved st ev \<Longrightarrow> single_login st ev"
  by (cases ev) auto

lemma well_behaved_honours: "well_behaved st ev \<Longrightarrow> honours_probe st ev"
  by (cases ev) auto

lemma set_set_add [simp]: "set (set_add x xs) = insert x (set xs)"
  by (auto simp: set_add_def)

lemma set_set_delete [simp]: "set (set_delete x xs) = set xs - {x}"
  by (auto simp: set_delete_def)

lemma map_of_append_new_group [simp]:
  "([g0 \<mapsto> v] ++ map_of m) g = (if g = g0 \<and> \<not> has g0 m then Some v else map_of m g)"
  by (auto simp: has_map_of map_add_def split: option.splits)

lemma map_of_map_entry_group [simp]:
  "map_of (AList.map_entry g0 f m) g =
     (if g = g0 then map_option f (map_of m g0) else map_of m g)"
  by (auto simp: AList.map_of_map_entry split: option.splits)

lemma map_of_map_members [simp]:
  "map_of (map (\<lambda>(name, members). (name, f members)) m) g = map_option f (map_of m g)"
  by (simp add: map_of_map)

lemma reach_registered_live:
  assumes "reach well_behaved st"
  shows "map_of (users st) c = Some d
     \<Longrightarrow> c \<in> sockets st \<and> currentUser st c = Some (username d) \<and> truthy (username d)"
  using assms
proof (induction arbitrary: c d rule: reach_handlers_induct)
  case init
  then show ?case by (simp add: init_def)
next
  case (connection st s)
  from connection.IH [OF connection.prems [simplified]] connection.hyps
  show ?case by auto
next
  case (login st s u av stat)
  then show ?case by (auto split: if_splits)
next
  case (set_status st s x)
  then show ?case by (auto split: if_splits)
next
  case (disconnect st s)
  show ?case
  proof (cases "leaving s st")
    case True
    with disconnect.prems have "c \<noteq> s" "map_of (users st) c = Some d"
      by (auto split: if_splits)
    with disconnect.IH [of c d] show ?thesis by simp
  next
    case False
    with disconnect.prems have c: "map_of (users st) c = Some d" by simp
    from disconnect.IH [OF c] False have "c \<noteq> s" by (auto simp: leaving_def)
    with disconnect.IH [OF c] show ?thesis by simp
  qed
qed auto

lemma reach_members_named:
  assumes "reach well_behaved st"
  shows "map_of (groups st) g = Some ms \<Longrightarrow> m \<in> set ms \<Longrightarrow> \<exists>u. m = Some u \<and> u \<in> usernames st"
  using assms
proof (induction arbitrary: g ms m rule: reach_handlers_induct)
  case init
  then show ?case by (simp add: init_def)
next
  case (create_group st s g0)
  from create_group.hyps obtain u where u: "currentUser st s = Some u" by auto
  have hp: "reach honours_probe st"
    using create_group.hyps(1) by (rule reach_mono) (rule well_behaved_honours)
  from reach_currentUser_registered [OF create_group.hyps(1,2) u] reach_names_unique [OF hp]
  have "u \<in> usernames st" by blast
  with create_group.prems create_group.IH [of g ms m] u show ?case
    by (auto split: if_splits)
next
  case (join_group st s g0)
  from join_group.hyps obtain u where u: "currentUser st s = Some u" by auto
  have hp: "reach honours_probe st"
    using join_group.hyps(1) by (rule reach_mono) (rule well_behaved_honours)
  from reach_currentUser_registered [OF join_group.hyps(1,2) u] reach_names_unique [OF hp]
  have "u \<in> usernames st" by blast
  with join_group.prems join_group.IH [of g _ m] u show ?case
    by (auto split: if_splits)
next
  case (disconnect st s)
  then show ?case
    by (fastforce simp: leaving_def split: if_splits option.splits)
next
  case (login st s u av stat)
  from login.IH [of g ms m] login.prems show ?case by auto
qed auto

lemma reach_one_socket_per_name:
  assumes "reach well_behaved st"
    and "map_of (users st) c = Some d" and "map_of (users st) c' = Some d'"
    and "username d = username d'"
  shows "c = c'"
proof -
  have "reach honours_probe st"
    using assms(1) by (rule reach_mono) (rule well_behaved_honours)
  from reach_names_unique [OF this] assms(2-4) show ?thesis by blast
qed

lemma reach_room_members:
  assumes "reach well_behaved st"
  shows "map_of (groups st) g = Some ms \<Longrightarrow>
         ((g, c) \<in> rooms st \<longleftrightarrow> (\<exists>d. map_of (users st) c = Some d \<and> Some (username d) \<in> set ms))"
  using assms
proof (induction arbitrary: g ms c rule: reach_handlers_induct)
  case init
  then show ?case by (simp add: init_def)
next
  case (connection st s)
  from connection.prems have g: "map_of (groups st) g = Some ms" by simp
  with connection.hyps have "g \<noteq> s" by (auto simp: has_map_of)
  with connection.IH [OF g, of c] show ?case by simp
next
  case (login st s u av stat)
  from login.prems have g: "map_of (groups st) g = Some ms" by simp
  with login.hyps have "g \<noteq> u" by (auto simp: has_map_of)
  have "Some u \<notin> set ms"
    using reach_members_named [OF login.hyps(1) g, of "Some u"] login.hyps by auto
  moreover have "map_of (users st) s = None" using login.hyps by (simp add: has_map_of)
  ultimately show ?case using login.IH [OF g, of c] \<open>g \<noteq> u\<close> by auto
next
  case (set_status st s x)
  from set_status.prems have g: "map_of (groups st) g = Some ms" by simp
  from set_status.IH [OF g, of c] show ?case by (cases "c = s") auto
next
  case (create_group st s g0)
  from create_group.hyps obtain u where u: "currentUser st s = Some u" by auto
  from reach_currentUser_registered [OF create_group.hyps(1,2) u]
  obtain ds where ds: "map_of (users st) s = Some ds" "username ds = u" by blast
  show ?case
  proof (cases "g = g0 \<and> \<not> has g0 (groups st)")
    case True
    with create_group.prems have ms: "ms = [Some u]" using u by simp
    have room: "(g0, c) \<in> insert (g0, s) (rooms st) \<longleftrightarrow> c = s"
      using create_group.hyps by force
    have "(\<exists>d. map_of (users st) c = Some d \<and> username d = u) \<longleftrightarrow> c = s"
      using ds reach_one_socket_per_name [OF create_group.hyps(1), of c _ s ds] by auto
    with True ms room show ?thesis by auto
  next
    case False
    with create_group.prems have g: "map_of (groups st) g = Some ms"
      by (auto split: if_splits)
    then have "has g (groups st)" by (simp add: has_map_of)
    with False have "has g0 (groups st) \<or> g \<noteq> g0" by auto
    with create_group.IH [OF g, of c] show ?thesis by auto
  qed
next
  case (join_group st s g0)
  from join_group.hyps obtain u where u: "currentUser st s = Some u" by auto
  from reach_currentUser_registered [OF join_group.hyps(1,2) u]
  obtain ds where ds: "map_of (users st) s = Some ds" "username ds = u" by blast
  have same: "(\<exists>d. map_of (users st) c = Some d \<and> username d = u) \<longleftrightarrow> c = s"
    using ds reach_one_socket_per_name [OF join_group.hyps(1), of c _ s ds] by auto
  show ?case
  proof (cases "g = g0")
    case True
    with join_group.prems obtain ms0
      where ms0: "map_of (groups st) g0 = Some ms0" "ms = set_add (Some u) ms0"
      using u by auto
    then have "has g0 (groups st)" by (simp add: has_map_of)
    with True ms0 join_group.IH [OF ms0(1), of c] same show ?thesis by auto
  next
    case False
    with join_group.prems have g: "map_of (groups st) g = Some ms" by simp
    with False join_group.IH [OF g, of c] show ?thesis by auto
  qed
next
  case (disconnect st s)
  show ?case
  proof (cases "leaving s st")
    case False
    with disconnect.prems have g: "map_of (groups st) g = Some ms" by simp
    have "map_of (users st) s = None"
    proof (cases "map_of (users st) s")
      case (Some ds)
      from reach_registered_live [OF disconnect.hyps(1) Some] False show ?thesis
        by (simp add: leaving_def)
    qed simp
    with False disconnect.IH [OF g, of c] show ?thesis by auto
  next
    case True
    from leaving_registered [OF disconnect.hyps(1,2) True]
    obtain ds where ds: "map_of (users st) s = Some ds" "currentUser st s = Some (username ds)"
      by blast
    from True disconnect.prems ds obtain ms0
      where ms0: "map_of (groups st) g = Some ms0" "ms = set_delete (Some (username ds)) ms0"
      by auto
    have other: "\<And>d. c \<noteq> s \<Longrightarrow> map_of (users st) c = Some d \<Longrightarrow> username d \<noteq> username ds"
      using reach_one_socket_per_name [OF disconnect.hyps(1) _ ds(1)] by blast
    from True ms0 disconnect.IH [OF ms0(1), of c] other show ?thesis by auto
  qed
qed

subsection \<open>Reaching the example states\<close>

lemma reach_connection:
  "reach P st \<Longrightarrow> s \<notin> sockets st \<Longrightarrow> s \<noteq> [] \<Longrightarrow> P st (Connection s)
     \<Longrightarrow> reach P (on_connection s st)"
  by (rule reach_step [where ev = "Connection s" and es = "[]"]) simp_all

lemma reach_login:
  "reach P st \<Longrightarrow> s \<in> sockets st \<Longrightarrow> P st (Login s u av stat)
     \<Longrightarrow> reach P (fst (on_login s u av stat st))"
  by (rule reach_step [where ev = "Login s u av stat" and es = "snd (on_login s u av stat st)"])
     simp_all

lemma reach_create_group:
  "reach P st \<Longrightarrow> s \<in> sockets st \<Longrightarrow> P st (CreateGroup s g)
     \<Longrightarrow> reach P (fst (on_create_group s g st))"
  by (rule reach_step [where ev = "CreateGroup s g" and es = "snd (on_create_group s g st)"])
     simp_all

lemma reach_join_group:
  "reach P st \<Longrightarrow> s \<in> sockets st \<Longrightarrow> P st (JoinGroup s g)
     \<Longrightarrow> reach P (fst (on_join_group s g st))"
  by (rule reach_step [where ev = "JoinGroup s g" and es = "snd (on_join_group s g st)"])
     simp_all

lemma reach_disconnect:
  "reach P st \<Longrightarrow> s \<in> sockets st \<Longrightarrow> P st (Disconnect s)
     \<Longrightarrow> reach P (fst (on_disconnect s (socket_close s st)))"
  by (rule reach_step [where ev = "Disconnect s"
        and es = "snd (on_disconnect s (socket_close s st))"]) simp_all

lemma reach_anything: "reach P st \<Longrightarrow> reachable st"
  by (rule reach_mono) (simp_all add: anything_def)

lemma run_reachable: "reachable st \<Longrightarrow> run evs st = Inr st' \<Longrightarrow> reachable st'"
proof (induction evs arbitrary: st)
  case Nil
  then show ?case by simp
next
  case (Cons ev evs)
  show ?case
  proof (cases "enabled st ev")
    case False
    with Cons show ?thesis by simp
  next
    case True
    with Cons.prems(2) obtain st1 es where h: "handle ev st = Inr (st1, es)" "run evs st1 = Inr st'"
      by (auto split: sum.splits)
    have "anything st ev" by (simp add: anything_def)
    from reach_step [OF Cons.prems(1) True this h(1)] have "reachable st1" .
    with Cons.IH h(2) show ?thesis by blast
  qed
qed

lemma alice_online_reach: "reach well_behaved alice_online"
  unfolding alice_online_def
  by (intro reach_connection reach_login reach_init) (simp_all add: has_def init_def truthy_def)

lemma lobby_reach: "reach well_behaved lobby"
  unfolding lobby_def
  by (intro reach_connection alice_online_reach)
     (simp_all add: alice_online_def has_def init_def)

lemma duo_reach: "reach well_behaved duo"
  unfolding duo_def
  by (intro reach_login lobby_reach)
     (simp_all add: lobby_def alice_online_def has_def init_def truthy_def)

lemma two_alices_reachable: "reachable two_alices"
  unfolding two_alices_def
  by (intro reach_login reach_anything [OF lobby_reach])
     (simp_all add: lobby_def anything_def)

lemma alice_gone_reachable: "reachable alice_gone"
  unfolding alice_gone_def
  by (intro reach_disconnect two_alices_reachable)
     (simp_all add: two_alices_def lobby_def alice_online_def anything_def)

lemma team_created_reach: "reach well_behaved team_created"
  unfolding team_created_def
  by (intro reach_connection reach_create_group alice_online_reach)
     (simp_all add: alice_online_def has_def init_def)

lemma team_room_reach: "reach well_behaved team_room"
  unfolding team_room_def
  by (intro reach_login team_created_reach)
     (simp_all add: team_created_def alice_online_def has_def init_def truthy_def)

lemma namesake_reach: "reach single_login namesake"
  unfolding namesake_def
  by (intro reach_login reach_mono [OF team_created_reach well_behaved_single])
     (simp_all add: team_created_def alice_online_def has_def init_def)

lemma lurker_reachable: "reachable lurker"
  unfolding lurker_def
  by (intro reach_join_group reach_anything [OF team_created_reach])
     (simp_all add: team_created_def anything_def)

lemma team_chat_reach: "reach well_behaved team_chat"
  unfolding team_chat_def
  by (intro reach_login reach_connection reach_join_group team_room_reach)
     (simp_all add: team_room_def team_created_def alice_online_def has_def init_def truthy_def)

lemma blank_online_reachable: "reachable blank_online"
  unfolding blank_online_def
  by (intro reach_connection reach_login reach_init) (simp_all add: init_def anything_def)


text \<open>The example states, written out.\<close>

lemma duo_users:
  "users duo = [(''c1'', \<lparr> username = ''alice'', avatar = ''a.png'', status = ''Online'' \<rparr>),
                (''c2'', \<lparr> username = ''bob'', avatar = ''b.png'', status = ''Online'' \<rparr>)]"
  by (simp add: example_defs init_def)

lemma team_chat_users:
  "users team_chat =
     [(''c1'', \<lparr> username = ''alice'', avatar = ''a.png'', status = ''Online'' \<rparr>),
      (''c2'', \<lparr> username = ''bob'', avatar = ''b.png'', status = ''Online'' \<rparr>),
      (''c3'', \<lparr> username = ''carol'', avatar = ''c.png'', status = ''Online'' \<rparr>)]"
  by (simp add: example_defs init_def)

lemma team_chat_groups: "groups team_chat = [(''team'', [Some ''alice'', Some ''bob''])]"
  by (simp add: example_defs init_def has_def set_add_def)

lemma team_chat_rooms:
  "rooms team_chat = {(''carol'', ''c3''), (''c3'', ''c3''), (''team'', ''c2''), (''bob'', ''c2''),
      (''c2'', ''c2''), (''team'', ''c1''), (''alice'', ''c1''), (''c1'', ''c1'')}"
  by (simp add: example_defs init_def has_def)


section \<open>The claims\<close>

subsection \<open>Login under a username that is in use\<close>

text \<open>
  Claim C1, as stated: when username \<open>u\<close> is registered to a still-active connection, a
  login of \<open>u\<close> from another connection fails with DuplicateUsername and leaves registry
  and directory unchanged. The handler has no failing branch: in \<open>lobby\<close>, where alice is
  registered on the live connection \<open>c1\<close>, a login as alice on \<open>c2\<close> returns normally and
  the registry then holds two records.
\<close>

theorem login_duplicate_counterexample:
  "reachable lobby \<and> ''alice'' \<in> usernames lobby
   \<and> map_of (users lobby) ''c1''
        = Some \<lparr> username = ''alice'', avatar = ''a.png'', status = ''Online'' \<rparr>
   \<and> ''c1'' \<in> sockets lobby \<and> enabled lobby (Login ''c2'' ''alice'' ''b.png'' None)
   \<and> handle (Login ''c2'' ''alice'' ''b.png'' None) lobby
        = Inr (on_login ''c2'' ''alice'' ''b.png'' None lobby)
   \<and> users (fst (on_login ''c2'' ''alice'' ''b.png'' None lobby))
        = [(''c1'', \<lparr> username = ''alice'', avatar = ''a.png'', status = ''Online'' \<rparr>),
           (''c2'', \<lparr> username = ''alice'', avatar = ''b.png'', status = ''Online'' \<rparr>)]
   \<and> users (fst (on_login ''c2'' ''alice'' ''b.png'' None lobby)) \<noteq> users lobby"
  using reach_anything [OF lobby_reach]
  by (simp add: example_defs init_def)

text \<open>
  Claim C1, amended: when username \<open>u\<close> is registered to connection \<open>c1\<close>, a login of \<open>u\<close>
  from a different connection \<open>c2\<close> succeeds; the handler has no DuplicateUsername
  failure. The Connection Registry then maps \<open>c2\<close> to a new record with username \<open>u\<close>
  and keeps every other record, that of \<open>c1\<close> included. The Username Directory then is
  the old one with \<open>u\<close> added, hence unchanged when it already held \<open>u\<close>.
\<close>

theorem login_duplicate_accepted:
  assumes "map_of (users st) c1 = Some d" and "username d = u" and "c2 \<noteq> c1"
  shows "handle (Login c2 u av stat) st = Inr (on_login c2 u av stat st)
       \<and> users (fst (on_login c2 u av stat st))
           = AList.update c2 \<lparr> username = u, avatar = av,
               status = (case stat of None \<Rightarrow> ''Online''
                         | Some x \<Rightarrow> if truthy x then x else ''Online'') \<rparr> (users st)
       \<and> map_of (users (fst (on_login c2 u av stat st))) c1 = Some d
       \<and> map_option username (map_of (users (fst (on_login c2 u av stat st))) c2) = Some u
       \<and> (\<forall>c. c \<noteq> c2 \<longrightarrow> map_of (users (fst (on_login c2 u av stat st))) c = map_of (users st) c)
       \<and> usernames (fst (on_login c2 u av stat st)) = insert u (usernames st)
       \<and> (u \<in> usernames st \<longrightarrow> usernames (fst (on_login c2 u av stat st)) = usernames st)"
  using assms by (auto simp: insert_absorb)

theorem login_duplicate_accepted_witness:
  "map_of (users lobby) ''c1''
        = Some \<lparr> username = ''alice'', avatar = ''a.png'', status = ''Online'' \<rparr>
   \<and> ''c2'' \<noteq> ''c1'' \<and> ''alice'' \<in> usernames lobby
   \<and> handle (Login ''c2'' ''alice'' ''b.png'' None) lobby
        = Inr (on_login ''c2'' ''alice'' ''b.png'' None lobby)
   \<and> usernames (fst (on_login ''c2'' ''alice'' ''b.png'' None lobby)) = usernames lobby
   \<and> map_option username (map_of (users (fst (on_login ''c2'' ''alice'' ''b.png'' None lobby))) ''c2'')
        = Some ''alice''"
  using login_duplicate_accepted [of lobby "''c1''"
      "\<lparr> username = ''alice'', avatar = ''a.png'', status = ''Online'' \<rparr>" "''alice''" "''c2''"
      "''b.png''" None]
  by (simp add: example_defs init_def)

subsection \<open>Uniqueness of identities\<close>

text \<open>
  Claim C2, as stated: in every reachable state there is at most one Identity per
  connection and at most one active Identity per username. In \<open>two_alices\<close> the live
  connections \<open>c1\<close> and \<open>c2\<close> both carry the username alice.
\<close>

theorem two_identities_one_username:
  "reachable two_alices \<and> ''c1'' \<in> sockets two_alices \<and> ''c2'' \<in> sockets two_alices
   \<and> map_option username (map_of (users two_alices) ''c1'') = Some ''alice''
   \<and> map_option username (map_of (users two_alices) ''c2'') = Some ''alice''
   \<and> \<not> distinct (map (username \<circ> snd) (users two_alices))"
  using two_alices_reachable
  by (simp add: example_defs init_def)

text \<open>
  Claim C2, amended: in every reachable state there is at most one Identity per
  connection handle; there is at most one Identity per username in every state reached
  by events whose logins each use a username the directory does not hold at that moment
  (the \<open>check_username\<close> probe is honoured). The login handler itself accepts a
  username that is in use.
\<close>

theorem identity_uniqueness:
  "(reachable st \<longrightarrow> distinct (map fst (users st)))
   \<and> (reach honours_probe st \<longrightarrow> distinct (map (username \<circ> snd) (users st)))"
  using reach_users_distinct [of anything st] reach_users_distinct [of honours_probe st]
    reach_names_unique [of st] distinct_names [of "users st" username]
  by blast

theorem identity_uniqueness_witness:
  "reachable duo \<and> reach honours_probe duo
   \<and> distinct (map fst (users duo)) \<and> distinct (map (username \<circ> snd) (users duo))
   \<and> map (username \<circ> snd) (users duo) = [''alice'', ''bob'']"
  using identity_uniqueness [of duo] reach_anything [OF duo_reach]
    reach_mono [OF duo_reach well_behaved_honours]
  by (simp add: duo_users)

subsection \<open>The username directory as an index of the registry\<close>

text \<open>
  Claim C7, as stated: after every sequence of operations the Username Directory equals
  the set of usernames in the Connection Registry. In \<open>alice_gone\<close>, reached by two
  logins as alice and the disconnect of the first connection, the registry still holds
  alice for \<open>c2\<close> and the directory is empty.
\<close>

theorem directory_mismatch:
  "reachable alice_gone \<and> usernames alice_gone = {}
   \<and> users alice_gone
        = [(''c2'', \<lparr> username = ''alice'', avatar = ''b.png'', status = ''Online'' \<rparr>)]
   \<and> usernames alice_gone \<noteq> username ` snd ` set (users alice_gone)"
  using alice_gone_reachable
  by (simp add: example_defs init_def leaving_def truthy_def)

text \<open>
  Claim C7, amended: in every state reached by events in which each login comes from a
  connection that has no Identity yet and uses a username the directory does not hold,
  the Username Directory equals the set of usernames of the Identity records in the
  Connection Registry.
\<close>

theorem directory_is_index:
  assumes "reach single_login st"
  shows "usernames st = username ` snd ` set (users st)"
proof -
  have hp: "reach honours_probe st"
    using assms by (rule reach_mono) (rule single_login_honours)
  have d: "distinct (map fst (users st))" using assms by (rule reach_users_distinct)
  show ?thesis
  proof (intro set_eqI iffI)
    fix u assume "u \<in> usernames st"
    then obtain c d where "map_of (users st) c = Some d" "username d = u"
      using reach_directory_covered [OF assms] by blast
    then show "u \<in> username ` snd ` set (users st)"
      by (force dest: map_of_SomeD)
  next
    fix u assume "u \<in> username ` snd ` set (users st)"
    then obtain c d' where "(c, d') \<in> set (users st)" "username d' = u" by auto
    with d have "map_of (users st) c = Some d'" by simp
    with reach_names_unique [OF hp] \<open>username d' = u\<close> show "u \<in> usernames st" by blast
  qed
qed

theorem directory_is_index_witness:
  "reach single_login duo \<and> usernames duo = username ` snd ` set (users duo)
   \<and> usernames duo = {''alice'', ''bob''}"
  using directory_is_index [of duo] reach_mono [OF duo_reach well_behaved_single]
  by (auto simp: duo_users)

subsection \<open>Joining a group that does not exist\<close>

text \<open>
  Claim C8. A \<open>join_group\<close> event naming a group that does not exist leaves the whole
  server state as it was, emits nothing (so no \<open>update_groups\<close> broadcast), and does not
  throw.
\<close>

theorem join_group_absent_noop:
  assumes "\<not> has g (groups st)"
  shows "handle (JoinGroup s g) st = Inr (st, [])"
  using assms by (simp add: on_join_group_def)

theorem join_group_absent_noop_witness:
  "\<not> has ''crew'' (groups team_chat)
   \<and> handle (JoinGroup ''c3'' ''crew'') team_chat = Inr (team_chat, [])"
  using join_group_absent_noop [of "''crew''" team_chat "''c3''"]
  by (simp add: team_chat_groups has_def)

subsection \<open>Create, then two joins in either order\<close>

text \<open>
  Claim C9. Let \<open>X\<close> and \<open>Y\<close> be the users logged in on connections \<open>cx\<close> and \<open>cy\<close>, and
  let \<open>g\<close> name no group. After \<open>cx\<close> creates \<open>g\<close>, which makes \<open>X\<close> its only member, the
  joins of \<open>cx\<close> and \<open>cy\<close> lead to the same server state in either order, and the
  \<open>update_groups\<close> payload broadcast by the last join lists, for \<open>g\<close>, exactly the
  members \<open>X\<close> and \<open>Y\<close>.
\<close>

theorem create_then_joins_commute:
  assumes "currentUser st cx = Some X" and "currentUser st cy = Some Y"
    and "\<not> has g (groups st)"
  shows "let s1 = fst (on_create_group cx g st);
             a = on_join_group cy g (fst (on_join_group cx g s1));
             b = on_join_group cx g (fst (on_join_group cy g s1))
         in groups s1 = groups st @ [(g, [Some X])]
          \<and> fst a = fst b
          \<and> snd a = [IoEmit (UpdateGroups (getGroupList (fst a)))]
          \<and> snd b = [IoEmit (UpdateGroups (getGroupList (fst b)))]
          \<and> (\<exists>ms. getGroupList (fst a) = groups st @ [(g, ms)] \<and> set ms = {Some X, Some Y})"
  using assms
  by (auto simp: on_create_group_def on_join_group_def Let_def map_entry_append_new
        set_add_def getGroupList_def insert_commute)

theorem create_then_joins_commute_witness:
  "currentUser duo ''c1'' = Some ''alice'' \<and> currentUser duo ''c2'' = Some ''bob''
   \<and> \<not> has ''team'' (groups duo)
   \<and> fst (on_join_group ''c2'' ''team''
            (fst (on_join_group ''c1'' ''team'' (fst (on_create_group ''c1'' ''team'' duo)))))
     = fst (on_join_group ''c1'' ''team''
            (fst (on_join_group ''c2'' ''team'' (fst (on_create_group ''c1'' ''team'' duo)))))"
  using create_then_joins_commute [of duo "''c1''" "''alice''" "''c2''" "''bob''" "''team''"]
  by (simp add: Let_def example_defs init_def has_def)

subsection \<open>Typing signals to a group\<close>

text \<open>
  Claim C10. A \<open>typing\<close> or \<open>stop_typing\<close> event of type \<open>group\<close> naming \<open>g\<close> changes no
  state, and whatever it sends reaches only connections subscribed to the room \<open>g\<close>
  other than the sender's own; the sender gets no copy. For a registered sender the
  signal is \<open>display_typing {from, isGroup: true, group}\<close>, respectively
  \<open>hide_typing {from}\<close>, and every other subscriber of \<open>g\<close> gets it once.
\<close>

theorem group_typing_excludes_sender:
  "(\<forall>ev st' es. (ev = Typing s g ''group'' \<or> ev = StopTyping s g ''group'') \<and>
        handle ev st = Inr (st', es)
        \<longrightarrow> st' = st \<and> received st es s = 0
          \<and> (\<forall>c. 0 < received st es c \<longrightarrow> (g, c) \<in> rooms st \<and> c \<noteq> s))
   \<and> (\<forall>sd. map_of (users st) s = Some sd \<longrightarrow>
        handle (Typing s g ''group'') st
          = Inr (st, [SocketTo s g (DisplayTyping (username sd) True (Some g))]) \<and>
        handle (StopTyping s g ''group'') st
          = Inr (st, [SocketTo s g (HideTyping (username sd))]) \<and>
        (\<forall>p c. received st [SocketTo s g p] c = (if (g, c) \<in> rooms st \<and> c \<noteq> s then 1 else 0)))"
  by (auto simp: on_typing_def on_stop_typing_def split: option.splits if_splits)

theorem group_typing_excludes_sender_witness:
  "map_of (users team_chat) ''c1''
     = Some \<lparr> username = ''alice'', avatar = ''a.png'', status = ''Online'' \<rparr>
   \<and> handle (Typing ''c1'' ''team'' ''group'') team_chat
     = Inr (team_chat, [SocketTo ''c1'' ''team'' (DisplayTyping ''alice'' True (Some ''team''))])
   \<and> received team_chat
        [SocketTo ''c1'' ''team'' (DisplayTyping ''alice'' True (Some ''team''))] ''c2'' = 1
   \<and> received team_chat
        [SocketTo ''c1'' ''team'' (DisplayTyping ''alice'' True (Some ''team''))] ''c1'' = 0
   \<and> received team_chat
        [SocketTo ''c1'' ''team'' (DisplayTyping ''alice'' True (Some ''team''))] ''c3'' = 0"
  using group_typing_excludes_sender [of "''c1''" "''team''" team_chat]
  by (simp add: team_chat_users team_chat_rooms)

subsection \<open>Events from a connection that has not logged in\<close>

text \<open>
  Claim C5 says that no inbound event is fatal. In \<open>lobby\<close> the connection \<open>c2\<close> has not
  logged in; its \<open>private_message\<close> makes the handler read \<open>sender.username\<close> of
  \<open>undefined\<close>, and the handler throws. The same happens with a \<open>group_message\<close> to an
  existing group and with a \<open>typing\<close> event of type \<open>group\<close>.
\<close>

theorem message_before_login_throws:
  "reachable lobby \<and> enabled lobby (PrivateMessage ''c2'' ''alice'' ''hey'' ''text'' ''10:00'')
   \<and> handle (PrivateMessage ''c2'' ''alice'' ''hey'' ''text'' ''10:00'') lobby = Inl TypeError
   \<and> handle (Typing ''c2'' ''team'' ''group'') lobby = Inl TypeError
   \<and> handle (GroupMessage ''c2'' ''team'' ''hey'' ''text'' ''10:00'') team_created = Inl TypeError
   \<and> run [Connection ''c2'', PrivateMessage ''c2'' ''alice'' ''hey'' ''text'' ''10:00''] init
        = Inl TypeError"
  using reach_anything [OF lobby_reach]
  by (simp add: example_defs on_private_message_def on_typing_def on_group_message_def
        init_def has_def)

subsection \<open>Disconnect\<close>

text \<open>
  Claim C6 says that a disconnect of a registered connection removes its username from
  every group and then triggers both the \<open>update_users\<close> and the \<open>update_groups\<close>
  broadcast. In \<open>team_room\<close> alice is the only member of team; when her connection
  closes the member list of team changes, and the handler emits \<open>update_users\<close> alone.
\<close>

theorem disconnect_no_group_broadcast:
  "reachable team_room \<and> enabled team_room (Disconnect ''c1'')
   \<and> groups team_room = [(''team'', [Some ''alice''])]
   \<and> handle (Disconnect ''c1'') team_room
        = Inr (on_disconnect ''c1'' (socket_close ''c1'' team_room))
   \<and> groups (fst (on_disconnect ''c1'' (socket_close ''c1'' team_room))) = [(''team'', [])]
   \<and> snd (on_disconnect ''c1'' (socket_close ''c1'' team_room))
        = [IoEmit (UpdateUsers [\<lparr> username = ''bob'', avatar = ''b.png'', status = ''Online'' \<rparr>])]"
  using reach_anything [OF team_room_reach]
  by (simp add: example_defs handler_defs)

text \<open>
  The test \<open>if (currentUser)\<close> of the same handler also skips the clean-up for a
  connection that logged in with the empty string: its record and directory entry stay.
\<close>

lemma disconnect_blank_username_keeps_record:
  "reachable blank_online
   \<and> users blank_online = [(''c1'', \<lparr> username = [], avatar = ''a.png'', status = ''Online'' \<rparr>)]
   \<and> on_disconnect ''c1'' (socket_close ''c1'' blank_online) = (socket_close ''c1'' blank_online, [])
   \<and> users (socket_close ''c1'' blank_online) = users blank_online
   \<and> usernames (socket_close ''c1'' blank_online) = {[]}"
  using blank_online_reachable
  by (simp add: blank_online_def init_def on_disconnect_def truthy_def)

subsection \<open>Private messages\<close>




subsection \<open>Group messages\<close>

text \<open>
  Claim C3 says that a group message of a registered member is delivered to every
  connection mapped to a member username and to no connection whose username is not a
  member. The handler tests membership by username but delivers with
  \<open>io.to(groupName)\<close>, to the room the transport keeps under that name; \<open>login\<close> puts
  a socket into the room named by its username, and rooms of groups and of users share
  one name space. In \<open>namesake\<close> alice is the only member of the group team, and \<open>c2\<close> is
  logged in under the username team, which is no member: the message alice sends to the
  group is delivered to \<open>c2\<close>.
\<close>

theorem group_message_reaches_namesake:
  "reach single_login namesake
   \<and> users namesake
       = [(''c1'', \<lparr> username = ''alice'', avatar = ''a.png'', status = ''Online'' \<rparr>),
          (''c2'', \<lparr> username = ''team'', avatar = ''t.png'', status = ''Online'' \<rparr>)]
   \<and> groups namesake = [(''team'', [Some ''alice''])]
   \<and> \<not> member_connection namesake ''team'' ''c2''
   \<and> enabled namesake (GroupMessage ''c1'' ''team'' ''hi'' ''text'' ''10:00'')
   \<and> handle (GroupMessage ''c1'' ''team'' ''hi'' ''text'' ''10:00'') namesake
       = Inr (namesake,
           [IoTo ''team'' (ReceiveGroup ''team'' ''alice'' ''hi'' ''text'' ''a.png'' ''10:00'')])
   \<and> received namesake
        [IoTo ''team'' (ReceiveGroup ''team'' ''alice'' ''hi'' ''text'' ''a.png'' ''10:00'')] ''c2'' = 1"
  using namesake_reach
  by (simp add: example_defs init_def has_def member_connection_def on_group_message_def)

text \<open>
  A connection that joins a group before it logs in is put into the room as well, with
  \<open>null\<close> as the member: in \<open>lurker\<close> the connection \<open>c2\<close> has no record and receives the
  group's messages.
\<close>

lemma group_message_reaches_lurker:
  "reachable lurker \<and> map_of (users lurker) ''c2'' = None
   \<and> groups lurker = [(''team'', [Some ''alice'', None])]
   \<and> \<not> member_connection lurker ''team'' ''c2''
   \<and> handle (GroupMessage ''c1'' ''team'' ''hi'' ''text'' ''10:00'') lurker
       = Inr (lurker,
           [IoTo ''team'' (ReceiveGroup ''team'' ''alice'' ''hi'' ''text'' ''a.png'' ''10:00'')])
   \<and> received lurker
        [IoTo ''team'' (ReceiveGroup ''team'' ''alice'' ''hi'' ''text'' ''a.png'' ''10:00'')] ''c2'' = 1"
  using lurker_reachable
  by (simp add: example_defs init_def has_def set_add_def member_connection_def
        on_group_message_def)

text \<open>
  What the handler does guarantee. For a registered sender whose username is a member
  of an existing group, the state is unchanged and the envelope
  \<open>{group, from, content, type, avatar, timestamp}\<close> is sent once to the room named after
  the group; otherwise nothing is sent, no error is raised and the state is unchanged.
  In the states reached by well-behaved clients the room holds exactly the connections
  mapped to a member username, the sender's own among them.
\<close>

lemma group_message_routing:
  assumes "map_of (users st) s = Some sd"
  shows "if member_connection st g s
         then handle (GroupMessage s g content ty now) st
                = Inr (st, [IoTo g (ReceiveGroup g (username sd) content ty (avatar sd) now)])
            \<and> (\<forall>c. received st [IoTo g (ReceiveGroup g (username sd) content ty (avatar sd) now)] c
                    = (if (g, c) \<in> rooms st then 1 else 0))
            \<and> (reach well_behaved st \<longrightarrow>
                  (g, s) \<in> rooms st \<and> (\<forall>c. (g, c) \<in> rooms st \<longleftrightarrow> member_connection st g c))
         else handle (GroupMessage s g content ty now) st = Inr (st, [])"
proof (cases "member_connection st g s")
  case False
  with assms show ?thesis
    by (auto simp: member_connection_def on_group_message_def Let_def split: option.splits)
next
  case True
  with assms obtain ms where ms: "map_of (groups st) g = Some ms" "Some (username sd) \<in> set ms"
    by (auto simp: member_connection_def split: option.splits)
  have sent: "handle (GroupMessage s g content ty now) st
                = Inr (st, [IoTo g (ReceiveGroup g (username sd) content ty (avatar sd) now)])"
    using assms ms by (simp add: on_group_message_def)
  have rooms: "(g, c) \<in> rooms st \<longleftrightarrow> member_connection st g c" if "reach well_behaved st" for c
    using reach_room_members [OF that ms(1), of c] ms(1)
    by (auto simp: member_connection_def split: option.splits)
  from rooms True have "reach well_behaved st \<longrightarrow> (g, s) \<in> rooms st" by blast
  with True sent rooms show ?thesis by simp
qed

lemma group_message_routing_example:
  "member_connection team_chat ''team'' ''c1'' \<and> reach well_behaved team_chat
   \<and> handle (GroupMessage ''c1'' ''team'' ''hi'' ''text'' ''10:00'') team_chat
       = Inr (team_chat,
           [IoTo ''team'' (ReceiveGroup ''team'' ''alice'' ''hi'' ''text'' ''a.png'' ''10:00'')])
   \<and> (\<forall>c. (''team'', c) \<in> rooms team_chat \<longleftrightarrow> member_connection team_chat ''team'' c)
   \<and> \<not> member_connection team_chat ''team'' ''c3''
   \<and> handle (GroupMessage ''c3'' ''team'' ''hi'' ''text'' ''10:00'') team_chat = Inr (team_chat, [])"
  using group_message_routing [of team_chat "''c1''"
      "\<lparr> username = ''alice'', avatar = ''a.png'', status = ''Online'' \<rparr>"
      "''team''" "''hi''" "''text''" "''10:00''"]
    group_message_routing [of team_chat "''c3''"
      "\<lparr> username = ''carol'', avatar = ''c.png'', status = ''Online'' \<rparr>"
      "''team''" "''hi''" "''text''" "''10:00''"]
    team_chat_reach
  by (simp add: team_chat_users team_chat_groups member_connection_def)

end
